theory Spec2Isabelle
  imports Complex_Main
begin

section \<open>Data model of the latency tester\<close>

text \<open>
  The program is one class, \<open>HttpLatencyTester\<close>, with two probe operations
  (\<open>testDirect\<close>, \<open>testWithProxy\<close>), the repeating schedule
  (\<open>runContinuousTesting\<close>) and the one-shot entry point (\<open>singleTest\<close>).
  The HTTP transport, the clocks and the console are the environment: what they deliver
  is an input of the model.
\<close>

record ProxyConfig =
  ip :: string
  port :: nat
  username :: string
  password :: string

subsection \<open>JavaScript numbers\<close>

text \<open>
  A JavaScript number is an IEEE 754 double. The values that arise here are a finite
  double, given as the real it denotes, or an infinity (no operation of the program yields
  \<open>NaN\<close>, and the sign of zero is not kept).
\<close>

datatype number = Finite real | PlusInfinity | MinusInfinity

fun nonNegative :: "number \<Rightarrow> bool" where
  "nonNegative (Finite v) = (0 \<le> v)"
| "nonNegative PlusInfinity = True"
| "nonNegative MinusInfinity = False"

text \<open>The number of binary digits of a natural number.\<close>

fun bitLength :: "nat \<Rightarrow> nat" where
  "bitLength n = (if n = 0 then 0 else Suc (bitLength (n div 2)))"

declare bitLength.simps [simp del]

text \<open>The integer nearest to \<open>n / d\<close>, a tie going to the even one.\<close>

definition roundHalfEven :: "nat \<Rightarrow> nat \<Rightarrow> nat" where
  "roundHalfEven n d =
     (let q = n div d; r = n mod d
      in if 2 * r < d then q else if d < 2 * r then q + 1 else if even q then q else q + 1)"

text \<open>
  The magnitude of \<open>Number(n)\<close> for a bigint of magnitude \<open>a\<close>: \<open>a\<close> rounded to 53
  significant binary digits, ties to even. From \<open>2 ^ 1024\<close> on the result stands for
  an infinity.
\<close>

definition roundToDouble :: "nat \<Rightarrow> nat" where
  "roundToDouble a =
     (if bitLength a \<le> 53 then a
      else roundHalfEven a (2 ^ (bitLength a - 53)) * 2 ^ (bitLength a - 53))"

definition pow2 :: "int \<Rightarrow> real" where
  "pow2 k = (if 0 \<le> k then 2 ^ nat k else 1 / 2 ^ nat (- k))"

text \<open>Numerator and denominator of \<open>a / q * 2 ^ s\<close>, for an integer \<open>s\<close> of either sign.\<close>

definition shiftNum :: "nat \<Rightarrow> int \<Rightarrow> nat" where
  "shiftNum a s = (if 0 \<le> s then a * 2 ^ nat s else a)"

definition shiftDen :: "nat \<Rightarrow> int \<Rightarrow> nat" where
  "shiftDen q s = (if 0 \<le> s then q else q * 2 ^ nat (- s))"

text \<open>
  The double nearest to the quotient \<open>a / q\<close> of two naturals (\<open>q > 0\<close>), with the
  given sign: what the division of two doubles with these integer values returns. \<open>e\<close>
  is the binary exponent of the quotient (\<open>2 ^ e \<le> a / q < 2 ^ (e + 1)\<close>), kept at
  \<open>-1022\<close> or above for the subnormal range; the quotient is rounded, ties to even, to a
  multiple of \<open>2 ^ (e - 52)\<close>; a result of \<open>2 ^ 1024\<close> or more is an infinity.
\<close>

definition nearestDouble :: "bool \<Rightarrow> nat \<Rightarrow> nat \<Rightarrow> number" where
  "nearestDouble negative a q =
     (if a = 0 then Finite 0
      else
        (let e0 = int (bitLength a) - int (bitLength q);
             e = (if shiftDen q (- e0) \<le> shiftNum a (- e0) then e0 else e0 - 1);
             s = 52 - max e (- 1022);
             m = roundHalfEven (shiftNum a s) (shiftDen q s);
             v = real m * pow2 (- s)
         in if 2 ^ 1024 \<le> v then (if negative then MinusInfinity else PlusInfinity)
            else Finite (if negative then - v else v)))"

text \<open>
  \<open>LatencyResult\<close>: the optional fields \<open>error?\<close> and \<open>responseData?\<close> are options
  (absent is \<open>None\<close>). The payload type \<open>'p\<close> is the decoded JSON value of
  \<open>response.body.json()\<close>; in the second variant of the file the payload is the pair of
  \<open>statusCode\<close> and \<open>responseBody\<close>, which are set together in the same object literal.
  \<open>timestamp\<close> is the value of \<open>new Date()\<close> in milliseconds since the epoch, and
  \<open>latency\<close> a JavaScript number (see below).
\<close>

record 'p LatencyResult =
  timestamp :: int
  proxy :: string
  latency :: number
  success :: bool
  error :: "string option"
  responseData :: "'p option"

text \<open>
  A value thrown in JavaScript: an instance of \<open>Error\<close> with its message, or any other
  value with the text \<open>String(error)\<close> gives for it.
\<close>

datatype thrown = ErrorObject string | OtherValue string

text \<open>\<open>error instanceof Error ? error.message : String(error)\<close>\<close>

fun errorText :: "thrown \<Rightarrow> string" where
  "errorText (ErrorObject message) = message"
| "errorText (OtherValue rendering) = rendering"

text \<open>A settled promise of an async function: rejected (\<open>Inl\<close>) or fulfilled (\<open>Inr\<close>).\<close>

type_synonym 'a promise = "thrown + 'a"

text \<open>
  What the transport does with one request, together with the readings of
  \<open>process.hrtime.bigint()\<close> (nanoseconds) the probe takes on the way:
  \<^item> \<open>Rejected e t\<close>: building the dispatcher or \<open>request\<close> throws \<open>e\<close>; the
    \<open>catch\<close> block reads the clock at \<open>t\<close>;
  \<^item> \<open>BodyRejected t e t'\<close>: the response arrives at \<open>t\<close>, reading the body
    throws \<open>e\<close>, and the \<open>catch\<close> block reads the clock again at \<open>t'\<close>;
  \<^item> \<open>Responded t d\<close>: the response arrives at \<open>t\<close> and its body decodes to \<open>d\<close>.
\<close>

datatype 'p transport =
    Rejected thrown int
  | BodyRejected int thrown int
  | Responded int 'p

text \<open>The clock reading that ends the measurement.\<close>

fun endInstant :: "'p transport \<Rightarrow> int" where
  "endInstant (Rejected e t) = t"
| "endInstant (BodyRejected t e t') = t'"
| "endInstant (Responded t d) = t"


text \<open>
  \<open>Number(end - start) / 1_000_000\<close>: the bigint difference is converted to a double,
  and the double is divided by the double \<open>1000000\<close>. Both steps round.
\<close>

definition latencyMs :: "int \<Rightarrow> int \<Rightarrow> number" where
  "latencyMs start end =
     (let n = end - start; d = roundToDouble (nat \<bar>n\<bar>)
      in if 2 ^ 1024 \<le> d then (if n < 0 then MinusInfinity else PlusInfinity)
         else nearestDouble (n < 0) d 1000000)"

subsection \<open>Template strings\<close>

definition digitChar :: "nat \<Rightarrow> char" where
  "digitChar d = ''0123456789'' ! d"

fun decimal :: "nat \<Rightarrow> string" where
  "decimal n = (if n < 10 then [digitChar n] else decimal (n div 10) @ [digitChar (n mod 10)])"

declare decimal.simps [simp del]

text \<open>\<open>`${proxyConfig.ip}:${proxyConfig.port}`\<close>\<close>

definition proxyString :: "ProxyConfig \<Rightarrow> string" where
  "proxyString proxyConfig = ip proxyConfig @ '':'' @ decimal (port proxyConfig)"

section \<open>The probes\<close>

text \<open>
  \<open>testDirect\<close>: \<open>start\<close> and \<open>timestamp\<close> are read before the \<open>try\<close>; everything
  that can throw is inside it, so the promise is always fulfilled.
\<close>

fun testDirect :: "int \<Rightarrow> int \<Rightarrow> 'p transport \<Rightarrow> 'p LatencyResult promise" where
  "testDirect start ts (Responded end d) =
     Inr \<lparr>timestamp = ts, proxy = ''direct'', latency = latencyMs start end,
          success = True, error = None, responseData = Some d\<rparr>"
| "testDirect start ts (BodyRejected end e end') =
     Inr \<lparr>timestamp = ts, proxy = ''direct'', latency = latencyMs start end',
          success = False, error = Some (errorText e), responseData = None\<rparr>"
| "testDirect start ts (Rejected e end') =
     Inr \<lparr>timestamp = ts, proxy = ''direct'', latency = latencyMs start end',
          success = False, error = Some (errorText e), responseData = None\<rparr>"

text \<open>
  The \<open>TypeError\<close> of reading \<open>.ip\<close> of \<open>undefined\<close>: \<open>proxyString\<close> is computed
  before the \<open>try\<close> of \<open>testWithProxy\<close>.
\<close>

definition undefinedProxyError :: thrown where
  "undefinedProxyError = ErrorObject ''Cannot read properties of undefined''"

text \<open>
  \<open>testWithProxy\<close>: the argument is \<open>None\<close> when the caller passes \<open>undefined\<close>
  (the non-null assertion \<open>proxy!\<close> checks nothing at run time).
\<close>

fun testWithProxy :: "ProxyConfig option \<Rightarrow> int \<Rightarrow> int \<Rightarrow> 'p transport \<Rightarrow> 'p LatencyResult promise" where
  "testWithProxy None start ts out = Inl undefinedProxyError"
| "testWithProxy (Some proxyConfig) start ts (Responded end d) =
     Inr \<lparr>timestamp = ts, proxy = proxyString proxyConfig, latency = latencyMs start end,
          success = True, error = None, responseData = Some d\<rparr>"
| "testWithProxy (Some proxyConfig) start ts (BodyRejected end e end') =
     Inr \<lparr>timestamp = ts, proxy = proxyString proxyConfig, latency = latencyMs start end',
          success = False, error = Some (errorText e), responseData = None\<rparr>"
| "testWithProxy (Some proxyConfig) start ts (Rejected e end') =
     Inr \<lparr>timestamp = ts, proxy = proxyString proxyConfig, latency = latencyMs start end',
          success = False, error = Some (errorText e), responseData = None\<rparr>"

section \<open>The tester and its rotation cursor\<close>

record HttpLatencyTester =
  targetUrl :: string
  proxies :: "ProxyConfig list"
  currentProxyIndex :: int

text \<open>The constructor: the cursor starts at 0.\<close>

definition newTester :: "string \<Rightarrow> ProxyConfig list \<Rightarrow> HttpLatencyTester" where
  "newTester url ps = \<lparr>targetUrl = url, proxies = ps, currentProxyIndex = 0\<rparr>"

text \<open>
  The remainder operator \<open>%\<close> of JavaScript on integers, for a divisor that is not
  zero: the result has the sign of the dividend. (By zero the remainder is \<open>NaN\<close>; the
  program takes remainders by the length of a pool it has just found not empty.)
\<close>

definition jsRem :: "int \<Rightarrow> int \<Rightarrow> int" where
  "jsRem a b = sgn a * (\<bar>a\<bar> mod \<bar>b\<bar>)"

text \<open>\<open>xs[i]\<close> on an array: \<open>undefined\<close> (here \<open>None\<close>) outside the array.\<close>

definition elementAt :: "'a list \<Rightarrow> int \<Rightarrow> 'a option" where
  "elementAt xs i = (if 0 \<le> i \<and> i < int (length xs) then Some (xs ! nat i) else None)"

text \<open>
  \<open>singleTest(useProxy, proxyIndex?)\<close>: \<open>proxyIndex\<close> is \<open>None\<close> when it is
  \<open>undefined\<close>. The tester is returned with the result, as the call leaves it.
\<close>

definition singleTest ::
  "HttpLatencyTester \<Rightarrow> bool \<Rightarrow> int option \<Rightarrow> int \<Rightarrow> int \<Rightarrow> 'p transport
   \<Rightarrow> 'p LatencyResult promise \<times> HttpLatencyTester" where
  "singleTest t useProxy proxyIndex start ts out =
     (if useProxy \<and> length (proxies t) > 0 then
        (let index = (case proxyIndex of
                        Some i \<Rightarrow> jsRem i (int (length (proxies t)))
                      | None \<Rightarrow> currentProxyIndex t);
             proxy = elementAt (proxies t) index
         in (testWithProxy proxy start ts out, t))
      else (testDirect start ts out, t))"

section \<open>The repeating schedule\<close>

text \<open>
  \<open>runContinuousTesting\<close> arms \<open>setInterval\<close> with an async callback. The event loop
  runs one task at a time: a timer tick runs the callback up to its \<open>await\<close>, and the
  settling of a request resumes the callback that awaits it. A probe in flight is a
  callback suspended at its \<open>await\<close>; it holds the proxy it selected (\<open>None\<close> on the
  direct path) and the \<open>start\<close> and \<open>timestamp\<close> its probe read.
\<close>

record Suspended =
  viaProxy :: "ProxyConfig option"
  startInstant :: int
  startDate :: int

text \<open>
  The state of one run: the tester, the local \<open>testsCompleted\<close>, whether the interval
  is still armed (\<open>clearInterval\<close> disarms it), whether \<open>process.exit\<close> was called, the
  callbacks suspended at their \<open>await\<close>, the results handed to \<open>logResult\<close>, and the
  values written by \<open>console.error('Scheduling error:', error)\<close>.
\<close>

record 'p Run =
  tester :: HttpLatencyTester
  testsCompleted :: int
  intervalArmed :: bool
  exited :: bool
  inFlight :: "Suspended list"
  logged :: "'p LatencyResult list"
  schedulingErrors :: "thrown list"

definition startRun :: "HttpLatencyTester \<Rightarrow> 'p Run" where
  "startRun t = \<lparr>tester = t, testsCompleted = 0, intervalArmed = True, exited = False,
                 inFlight = [], logged = [], schedulingErrors = []\<rparr>"

text \<open>
  The events of a run: a timer tick (with the clock and date its probe reads), the
  settling of the \<open>i\<close>-th suspended callback's request (with what the transport
  delivers and, if \<open>logResult\<close> throws, the value it throws), and \<open>SIGINT\<close>.
\<close>

datatype 'p event =
    Tick int int
  | Settle nat "'p transport" "thrown option"
  | Sigint

text \<open>\<open>testsCompleted++\<close> followed by the test against \<open>count\<close> and \<open>clearInterval\<close>.\<close>

definition countOne :: "int \<Rightarrow> 'p Run \<Rightarrow> 'p Run" where
  "countOne count s =
     (let s' = s\<lparr>testsCompleted := testsCompleted s + 1\<rparr>
      in if testsCompleted s' \<ge> count then s'\<lparr>intervalArmed := False\<rparr> else s')"

text \<open>The \<open>catch\<close> block of the callback.\<close>

definition onSchedulingError :: "int \<Rightarrow> thrown \<Rightarrow> 'p Run \<Rightarrow> 'p Run" where
  "onSchedulingError count e s = countOne count (s\<lparr>schedulingErrors := schedulingErrors s @ [e]\<rparr>)"

text \<open>\<open>this.logResult(result)\<close> and the rest of the \<open>try\<close> block.\<close>

definition onResult :: "int \<Rightarrow> 'p LatencyResult \<Rightarrow> thrown option \<Rightarrow> 'p Run \<Rightarrow> 'p Run" where
  "onResult count result sinkFault s =
     (case sinkFault of
        Some e \<Rightarrow> onSchedulingError count e s
      | None \<Rightarrow> countOne count (s\<lparr>logged := logged s @ [result]\<rparr>))"

text \<open>\<open>this.currentProxyIndex = (this.currentProxyIndex + 1) % this.proxies.length\<close>\<close>

definition advance :: "HttpLatencyTester \<Rightarrow> HttpLatencyTester" where
  "advance t = t\<lparr>currentProxyIndex := jsRem (currentProxyIndex t + 1) (int (length (proxies t)))\<rparr>"

text \<open>
  The callback up to its \<open>await\<close>. With an \<open>undefined\<close> proxy \<open>testWithProxy\<close>
  rejects at once and the \<open>catch\<close> block runs in the same task.
\<close>

definition onTick :: "bool \<Rightarrow> int \<Rightarrow> int \<Rightarrow> int \<Rightarrow> 'p Run \<Rightarrow> 'p Run" where
  "onTick useProxy count start ts s =
     (if useProxy \<and> length (proxies (tester s)) > 0 then
        (case elementAt (proxies (tester s)) (currentProxyIndex (tester s)) of
           None \<Rightarrow> onSchedulingError count undefinedProxyError s
         | Some cfg \<Rightarrow>
             s\<lparr>inFlight := inFlight s @ [\<lparr>viaProxy = Some cfg, startInstant = start, startDate = ts\<rparr>]\<rparr>)
      else s\<lparr>inFlight := inFlight s @ [\<lparr>viaProxy = None, startInstant = start, startDate = ts\<rparr>]\<rparr>)"

text \<open>The callback from its \<open>await\<close> on, for the suspended callback \<open>c\<close>.\<close>

definition onSettle :: "int \<Rightarrow> Suspended \<Rightarrow> 'p transport \<Rightarrow> thrown option \<Rightarrow> 'p Run \<Rightarrow> 'p Run" where
  "onSettle count c out sinkFault s =
     (case viaProxy c of
        Some cfg \<Rightarrow>
          (case testWithProxy (Some cfg) (startInstant c) (startDate c) out of
             Inl e \<Rightarrow> onSchedulingError count e s
           | Inr result \<Rightarrow> onResult count result sinkFault (s\<lparr>tester := advance (tester s)\<rparr>))
      | None \<Rightarrow>
          (case testDirect (startInstant c) (startDate c) out of
             Inl e \<Rightarrow> onSchedulingError count e s
           | Inr result \<Rightarrow> onResult count result sinkFault s))"

text \<open>
  One task of the event loop. The timer fires only while the interval is armed; nothing
  runs after \<open>process.exit\<close>; a \<open>Settle\<close> that names no suspended callback is no event.
\<close>

fun step :: "bool \<Rightarrow> int \<Rightarrow> 'p Run \<Rightarrow> 'p event \<Rightarrow> 'p Run" where
  "step useProxy count s (Tick start ts) =
     (if exited s \<or> \<not> intervalArmed s then s else onTick useProxy count start ts s)"
| "step useProxy count s (Settle i out sinkFault) =
     (if exited s \<or> i \<ge> length (inFlight s) then s
      else onSettle count (inFlight s ! i) out sinkFault
             (s\<lparr>inFlight := take i (inFlight s) @ drop (Suc i) (inFlight s)\<rparr>))"
| "step useProxy count s Sigint =
     (if exited s then s else s\<lparr>intervalArmed := False, exited := True\<rparr>)"

text \<open>A run from a state, and \<open>runContinuousTesting\<close> on a tester.\<close>

definition run :: "bool \<Rightarrow> int \<Rightarrow> 'p Run \<Rightarrow> 'p event list \<Rightarrow> 'p Run" where
  "run useProxy count s evs = foldl (step useProxy count) s evs"

definition runContinuousTesting ::
  "HttpLatencyTester \<Rightarrow> bool \<Rightarrow> int \<Rightarrow> 'p event list \<Rightarrow> 'p Run" where
  "runContinuousTesting t useProxy count evs = run useProxy count (startRun t) evs"

section \<open>Observations on runs\<close>

fun isTick :: "'p event \<Rightarrow> bool" where
  "isTick (Tick start ts) = True"
| "isTick (Settle i out sinkFault) = False"
| "isTick Sigint = False"

text \<open>
  A run in which every probe settles before the next tick fires: whenever the timer
  fires, no callback is suspended. This is the case of round trips shorter than the
  interval.
\<close>

fun settlesBeforeNextTick :: "bool \<Rightarrow> int \<Rightarrow> 'p Run \<Rightarrow> 'p event list \<Rightarrow> bool" where
  "settlesBeforeNextTick useProxy count s [] = True"
| "settlesBeforeNextTick useProxy count s (e # evs) =
     ((if isTick e \<and> intervalArmed s \<and> \<not> exited s then inFlight s = [] else True) \<and>
      settlesBeforeNextTick useProxy count (step useProxy count s e) evs)"

text \<open>
  A schedule has run to completion when the interval is cleared, no callback is still
  suspended, and the process was not made to exit.
\<close>

definition completed :: "'p Run \<Rightarrow> bool" where
  "completed s = (\<not> exited s \<and> \<not> intervalArmed s \<and> inFlight s = [])"

text \<open>
  The proxies the probes of a run are sent through, in the order of the ticks: for each
  tick, the \<open>viaProxy\<close> of the callbacks that the tick has added to those in flight
  (none when the tick does not fire or its callback ends in the \<open>catch\<close> block,
  \<open>None\<close> for a direct probe).
\<close>

fun probedVia :: "bool \<Rightarrow> int \<Rightarrow> 'p Run \<Rightarrow> 'p event list \<Rightarrow> ProxyConfig option list" where
  "probedVia useProxy count s [] = []"
| "probedVia useProxy count s (e # evs) =
     (if isTick e
      then map viaProxy (drop (length (inFlight s)) (inFlight (step useProxy count s e)))
      else []) @
     probedVia useProxy count (step useProxy count s e) evs"


definition rotationInv :: "ProxyConfig list \<Rightarrow> 'p Run \<Rightarrow> bool" where
  "rotationInv ps s =
     (proxies (tester s) = ps \<and> 0 \<le> testsCompleted s \<and>
      currentProxyIndex (tester s) = testsCompleted s mod int (length ps) \<and>
      list_all (\<lambda>c. viaProxy c \<noteq> None) (inFlight s))"

definition usedInv :: "ProxyConfig list \<Rightarrow> 'p Run \<Rightarrow> bool" where
  "usedInv ps s =
     (list_all (\<lambda>c. viaProxy c = Some (ps ! nat (testsCompleted s mod int (length ps))))
        (inFlight s) \<and>
      (if schedulingErrors s = []
       then int (length (logged s)) = testsCompleted s \<and>
            map proxy (logged s) =
              map (\<lambda>k. proxyString (ps ! (k mod length ps))) [0..<length (logged s)]
       else True))"

definition directInv :: "'p Run \<Rightarrow> bool" where
  "directInv s =
     (list_all (\<lambda>c. viaProxy c = None) (inFlight s) \<and>
      list_all (\<lambda>r. proxy r = ''direct'') (logged s))"

text \<open>Two pool entries and a target for the concrete runs below.\<close>

definition proxyA :: ProxyConfig where
  "proxyA = \<lparr>ip = ''10.0.0.1'', port = 8080, username = ''alice'', password = ''secret''\<rparr>"

definition proxyB :: ProxyConfig where
  "proxyB = \<lparr>ip = ''10.0.0.2'', port = 3128, username = ''bob'', password = ''hidden''\<rparr>"

definition target :: string where
  "target = ''https://api-manager.upbit.com/api/v1/announcements/5285''"

text \<open>
  Two runs of four events. In the first each probe settles before the next tick (the
  second probe fails in the transport); in the second the first probe is still in flight
  when the timer fires again. Clock readings are in nanoseconds, dates in milliseconds.
\<close>

definition settledRun :: "string event list" where
  "settledRun =
     [Tick 0 0, Settle 0 (Responded 250000000 ''{}'') None,
      Tick 1000000000 1000, Settle 0 (Rejected (ErrorObject ''ECONNRESET'') 1300000000) None]"

definition overlappingRun :: "string event list" where
  "overlappingRun =
     [Tick 0 0, Tick 1000000000 1000,
      Settle 0 (Responded 1500000000 ''{}'') None, Settle 0 (Responded 1600000000 ''{}'') None]"

section \<open>Basic facts\<close>

subsection \<open>Rounding to a double\<close>

lemmas evalNumber = latencyMs_def roundToDouble_def nearestDouble_def roundHalfEven_def
  pow2_def shiftNum_def shiftDen_def bitLength.simps Let_def

lemma bitLength_bounds: "0 < n \<Longrightarrow> 2 ^ (bitLength n - 1) \<le> n \<and> n < 2 ^ bitLength n"
proof (induction n rule: bitLength.induct)
  case (1 n)
  show ?case
  proof (cases "n div 2 = 0")
    case True
    with "1.prems" have "n = 1" by auto
    then show ?thesis by (simp add: bitLength.simps)
  next
    case False
    then have pos: "0 < n div 2" by simp
    with "1.IH" "1.prems" have IH: "2 ^ (bitLength (n div 2) - 1) \<le> n div 2"
      "n div 2 < 2 ^ bitLength (n div 2)" by simp_all
    from pos have bl: "0 < bitLength (n div 2)" by (subst bitLength.simps) simp
    have eq: "bitLength n = Suc (bitLength (n div 2))"
      using "1.prems" by (subst bitLength.simps) simp
    from bl obtain k where k: "bitLength (n div 2) = Suc k" by (cases "bitLength (n div 2)") auto
    from IH k have "2 * 2 ^ k \<le> n" "n < 2 * 2 ^ Suc k" by auto
    with eq k show ?thesis by simp
  qed
qed

lemma bitLength_le: "n < 2 ^ k \<Longrightarrow> bitLength n \<le> k"
proof (cases "n = 0")
  case True
  then show ?thesis by (simp add: bitLength.simps)
next
  case False
  assume "n < 2 ^ k"
  moreover from False have "2 ^ (bitLength n - 1) \<le> n" using bitLength_bounds [of n] by simp
  ultimately have "(2::nat) ^ (bitLength n - 1) < 2 ^ k" by (rule le_less_trans [rotated])
  then have "bitLength n - 1 < k" by simp
  then show ?thesis by simp
qed

lemma bitLength_pos: "0 < n \<Longrightarrow> 0 < bitLength n"
  by (subst bitLength.simps) simp

lemma roundHalfEven_near:
  assumes "0 < d"
  shows "\<bar>real (roundHalfEven n d) - real n / real d\<bar> \<le> 1 / 2"
proof -
  define q r where "q = n div d" and "r = n mod d"
  have n: "real n = real q * real d + real r"
    unfolding q_def r_def by (metis div_mult_mod_eq of_nat_add of_nat_mult)
  have r: "r < d" unfolding r_def using assms by simp
  have quot: "real n / real d = real q + real r / real d"
    using assms by (simp add: n field_simps)
  consider "2 * r < d" | "d < 2 * r" | "2 * r = d" by linarith
  then show ?thesis
  proof cases
    case 1
    then have "roundHalfEven n d = q" by (simp add: roundHalfEven_def q_def r_def Let_def)
    moreover from 1 assms have "real r / real d \<le> 1 / 2" by (simp add: field_simps)
    ultimately show ?thesis using quot by simp
  next
    case 2
    then have "roundHalfEven n d = q + 1" by (simp add: roundHalfEven_def q_def r_def Let_def)
    moreover from 2 assms have "1 / 2 \<le> real r / real d" by (simp add: field_simps)
    moreover from r assms have "real r / real d \<le> 1" by (simp add: field_simps)
    ultimately show ?thesis using quot by simp
  next
    case 3
    then have "roundHalfEven n d = q \<or> roundHalfEven n d = q + 1"
      by (simp add: roundHalfEven_def q_def r_def Let_def)
    moreover from 3 assms have "real r / real d = 1 / 2" by (simp add: field_simps)
    ultimately show ?thesis using quot by auto
  qed
qed

lemma pow2_pos: "0 < pow2 k"
  by (simp add: pow2_def)

lemma pow2_powr: "pow2 k = 2 powr real_of_int k"
proof (cases "0 \<le> k")
  case True
  then show ?thesis by (simp add: pow2_def powr_realpow [symmetric])
next
  case False
  then have "real_of_int k = - real (nat (- k))" by simp
  then show ?thesis using False
    by (simp add: pow2_def powr_minus powr_realpow [symmetric] field_simps del: of_nat_nat)
qed

lemma pow2_add: "pow2 (j + k) = pow2 j * pow2 k"
  by (simp add: pow2_powr powr_add)

lemma pow2_mono: "j \<le> k \<Longrightarrow> pow2 j \<le> pow2 k"
  by (simp add: pow2_powr)

lemma pow2_nat: "pow2 (int k) = 2 ^ k"
  by (simp add: pow2_def)

lemma shift_quotient:
  "0 < q \<Longrightarrow> real (shiftNum a s) / real (shiftDen q s) = real a / real q * pow2 s"
  by (simp add: shiftNum_def shiftDen_def pow2_def)

lemma shiftDen_pos: "0 < q \<Longrightarrow> 0 < shiftDen q s"
  by (simp add: shiftDen_def)

lemma nearestDouble_nonNegative: "nonNegative (nearestDouble False a q)"
  by (simp add: nearestDouble_def Let_def pow2_pos less_imp_le)

lemma latencyMs_nonNegative: "start \<le> end \<Longrightarrow> nonNegative (latencyMs start end)"
  by (simp add: latencyMs_def Let_def nearestDouble_nonNegative)

lemma pow2_less_cancel: "pow2 j < pow2 k \<Longrightarrow> j < k"
  by (simp add: pow2_powr)

lemma bitLength_pow2:
  assumes "0 < n"
  shows "pow2 (int (bitLength n) - 1) \<le> real n" and "real n < pow2 (int (bitLength n))"
proof -
  from bitLength_pos [OF assms] obtain k where k: "bitLength n = Suc k"
    by (cases "bitLength n") auto
  from bitLength_bounds [OF assms] k have "2 ^ k \<le> n" "n < 2 ^ Suc k" by auto
  then have "real (2 ^ k) \<le> real n" "real n < real (2 ^ Suc k)"
    by (simp_all only: of_nat_le_iff of_nat_less_iff)
  then have "2 ^ k \<le> real n" "real n < 2 ^ Suc k" by simp_all
  moreover have "pow2 (int (bitLength n) - 1) = 2 ^ k" "pow2 (int (bitLength n)) = 2 ^ Suc k"
    using pow2_nat [of k] pow2_nat [of "Suc k"] by (simp_all add: k)
  ultimately show "pow2 (int (bitLength n) - 1) \<le> real n" and "real n < pow2 (int (bitLength n))"
    by simp_all
qed

lemma quotient_exponent:
  assumes a: "0 < a" and q: "0 < q"
  defines "e0 \<equiv> int (bitLength a) - int (bitLength q)"
  defines "e \<equiv> (if shiftDen q (- e0) \<le> shiftNum a (- e0) then e0 else e0 - 1)"
  shows "pow2 e \<le> real a / real q" and "real a / real q < pow2 (e + 1)"
proof -
  let ?x = "real a / real q"
  have a1: "pow2 (int (bitLength a) - 1) \<le> real a" and a2: "real a < pow2 (int (bitLength a))"
    by (rule bitLength_pow2 [OF a])+
  have q1: "pow2 (int (bitLength q) - 1) \<le> real q" and q2: "real q < pow2 (int (bitLength q))"
    by (rule bitLength_pow2 [OF q])+
  have qpos: "0 < real q" using q by simp
  have "real a < pow2 (int (bitLength a))" by (rule a2)
  also have "\<dots> = pow2 (e0 + 1) * pow2 (int (bitLength q) - 1)"
    by (simp add: e0_def flip: pow2_add)
  also have "\<dots> \<le> pow2 (e0 + 1) * real q"
    using q1 pow2_pos [of "e0 + 1"] by simp
  finally have upper: "?x < pow2 (e0 + 1)"
    using qpos by (simp add: field_simps)
  have "pow2 (e0 - 1) * real q < pow2 (e0 - 1) * pow2 (int (bitLength q))"
    using q2 pow2_pos [of "e0 - 1"] by simp
  also have "\<dots> = pow2 (int (bitLength a) - 1)"
    by (simp add: e0_def flip: pow2_add)
  also have "\<dots> \<le> real a" by (rule a1)
  finally have lower: "pow2 (e0 - 1) < ?x"
    using qpos by (simp add: field_simps)
  have test: "(shiftDen q (- e0) \<le> shiftNum a (- e0)) = (pow2 e0 \<le> ?x)"
  proof -
    have "(shiftDen q (- e0) \<le> shiftNum a (- e0)) =
          (1 \<le> real (shiftNum a (- e0)) / real (shiftDen q (- e0)))"
      using shiftDen_pos [OF q, of "- e0"] by (simp add: field_simps flip: of_nat_le_iff)
    also have "\<dots> = (1 \<le> ?x * pow2 (- e0))"
      by (simp add: shift_quotient [OF q])
    also have "\<dots> = (pow2 e0 * pow2 (- e0) \<le> ?x * pow2 (- e0))"
      by (simp flip: pow2_add add: pow2_def)
    also have "\<dots> = (pow2 e0 \<le> ?x)"
      by (rule mult_le_cancel_right_pos [OF pow2_pos])
    finally show ?thesis .
  qed
  show "pow2 e \<le> ?x"
    using test lower by (auto simp: e_def)
  show "?x < pow2 (e + 1)"
    using test upper by (auto simp: e_def)
qed

lemma nearestDouble_accurate:
  assumes a: "0 < a" and q: "0 < q"
    and normal: "pow2 (- 1022) \<le> real a / real q"
    and finite: "real a / real q < 2 ^ 1023"
  shows "\<exists>v. nearestDouble negative a q = Finite (if negative then - v else v) \<and>
             \<bar>v - real a / real q\<bar> \<le> real a / real q / 2 ^ 53"
proof -
  let ?x = "real a / real q"
  define e0 where "e0 = int (bitLength a) - int (bitLength q)"
  define e where "e = (if shiftDen q (- e0) \<le> shiftNum a (- e0) then e0 else e0 - 1)"
  define s where "s = 52 - max e (- 1022)"
  define m where "m = roundHalfEven (shiftNum a s) (shiftDen q s)"
  define v where "v = real m * pow2 (- s)"
  have unfolded: "nearestDouble negative a q =
      (if 2 ^ 1024 \<le> v then (if negative then MinusInfinity else PlusInfinity)
       else Finite (if negative then - v else v))"
  proof -
    have ne: "(a = 0) = False" using a by simp
    show ?thesis
      unfolding nearestDouble_def Let_def ne if_False v_def m_def s_def e_def e0_def ..
  qed
  have e: "pow2 e \<le> ?x" "?x < pow2 (e + 1)"
    unfolding e_def e0_def by (rule quotient_exponent [OF a q])+
  from normal e(2) have "pow2 (- 1022) < pow2 (e + 1)" by simp
  then have "- 1022 < e + 1" by (rule pow2_less_cancel)
  then have s: "s = 52 - e" by (simp add: s_def)
  have near: "\<bar>real m - ?x * pow2 s\<bar> \<le> 1 / 2"
    using roundHalfEven_near [OF shiftDen_pos [OF q, of s], of "shiftNum a s"]
    by (simp add: m_def shift_quotient [OF q])
  have "\<bar>v - ?x\<bar> = \<bar>real m - ?x * pow2 s\<bar> * pow2 (- s)"
  proof -
    have "pow2 s * pow2 (- s) = 1" by (simp flip: pow2_add add: pow2_def)
    then have "v - ?x = (real m - ?x * pow2 s) * pow2 (- s)"
      by (simp add: v_def algebra_simps)
    then show ?thesis using pow2_pos [of "- s"] by (simp add: abs_mult)
  qed
  also have "\<dots> \<le> 1 / 2 * pow2 (- s)"
    using near pow2_pos [of "- s"] by (simp add: mult_right_mono)
  also have "pow2 (- s) = pow2 e * pow2 (- 52)"
    by (simp add: s flip: pow2_add)
  also have "1 / 2 * (pow2 e * pow2 (- 52)) = pow2 e / 2 ^ 53"
    by (simp add: pow2_def)
  also have "\<dots> \<le> ?x / 2 ^ 53"
    using e(1) by (simp add: divide_right_mono)
  finally have acc: "\<bar>v - ?x\<bar> \<le> ?x / 2 ^ 53" .
  have xpos: "0 < ?x" using a q by simp
  have "?x / 2 ^ 53 \<le> ?x" using xpos by (simp add: field_simps)
  with acc have "v \<le> 2 * ?x" by linarith
  with finite have "v < 2 * 2 ^ 1023" by linarith
  then have "\<not> 2 ^ 1024 \<le> v" by simp
  with unfolded have "nearestDouble negative a q = Finite (if negative then - v else v)"
    by (simp only: if_False)
  with acc show ?thesis by blast
qed

lemma roundToDouble_exact: "a < 2 ^ 53 \<Longrightarrow> roundToDouble a = a"
  by (simp add: roundToDouble_def bitLength_le)

lemma latencyMs_accurate:
  assumes "0 \<le> end - start" "end - start < 2 ^ 53"
  shows "\<exists>v. latencyMs start end = Finite v \<and>
             \<bar>v - real_of_int (end - start) / 1000000\<bar> \<le> real_of_int (end - start) / 1000000 / 2 ^ 53"
proof (cases "end - start = 0")
  case True
  then show ?thesis
    by (simp add: latencyMs_def roundToDouble_def bitLength.simps nearestDouble_def)
next
  case False
  define a where "a = nat \<bar>end - start\<bar>"
  from False assms have a: "0 < a" "a < 2 ^ 53" and ra: "real a = real_of_int (end - start)"
    by (simp_all add: a_def nat_less_iff)
  have exact: "roundToDouble a = a" using a(2) by (rule roundToDouble_exact)
  have small: "\<not> (2::nat) ^ 1024 \<le> a" using a(2) by simp
  have "1 \<le> real a" using a(1) by simp
  then have normal: "pow2 (- 1022) \<le> real a / real (1000000::nat)"
    by (simp add: pow2_def field_simps)
  from a(2) have "real a < real (2 ^ 53)" by (simp only: of_nat_less_iff)
  then have "real a < 2 ^ 53" by simp
  then have finite: "real a / real (1000000::nat) < 2 ^ 1023" by simp
  from nearestDouble_accurate [OF a(1) _ normal finite, of False]
  obtain v where "nearestDouble False a 1000000 = Finite v"
    "\<bar>v - real a / 1000000\<bar> \<le> real a / 1000000 / 2 ^ 53" by auto
  moreover have "latencyMs start end = nearestDouble False a 1000000"
  proof -
    have abs: "nat \<bar>end - start\<bar> = a" by (simp add: a_def)
    have sign: "\<not> end - start < 0" using assms(1) by simp
    show ?thesis
      unfolding latencyMs_def Let_def abs exact by (simp only: small sign if_False)
  qed
  ultimately show ?thesis
    by (auto simp: ra)
qed

subsection \<open>Steps of a run\<close>

lemma jsRem_nonneg: "0 \<le> a \<Longrightarrow> 0 < b \<Longrightarrow> jsRem a b = a mod b"
  by (cases "a = 0") (simp_all add: jsRem_def)

lemma testDirect_fulfilled [simp]: "testDirect start ts out \<noteq> Inl e"
  by (cases out) simp_all

lemma testWithProxy_fulfilled [simp]: "testWithProxy (Some cfg) start ts out \<noteq> Inl e"
  by (cases out) simp_all

lemma run_Nil [simp]: "run up c s [] = s"
  by (simp add: run_def)

lemma run_Cons [simp]: "run up c s (e # evs) = run up c (step up c s e) evs"
  by (simp add: run_def)

lemma step_exited: "exited s \<Longrightarrow> step up c s e = s"
  by (cases e) simp_all

lemma countOne_fields [simp]:
  "tester (countOne c s) = tester s"
  "exited (countOne c s) = exited s"
  "inFlight (countOne c s) = inFlight s"
  "logged (countOne c s) = logged s"
  "schedulingErrors (countOne c s) = schedulingErrors s"
  "testsCompleted (countOne c s) = testsCompleted s + 1"
  "intervalArmed (countOne c s) = (intervalArmed s \<and> testsCompleted s + 1 < c)"
  by (auto simp: countOne_def Let_def)

lemma onSchedulingError_fields [simp]:
  "tester (onSchedulingError c e s) = tester s"
  "exited (onSchedulingError c e s) = exited s"
  "inFlight (onSchedulingError c e s) = inFlight s"
  "logged (onSchedulingError c e s) = logged s"
  "schedulingErrors (onSchedulingError c e s) = schedulingErrors s @ [e]"
  "testsCompleted (onSchedulingError c e s) = testsCompleted s + 1"
  "intervalArmed (onSchedulingError c e s) = (intervalArmed s \<and> testsCompleted s + 1 < c)"
  by (simp_all add: onSchedulingError_def)

lemma onResult_fields [simp]:
  "tester (onResult c r f s) = tester s"
  "exited (onResult c r f s) = exited s"
  "inFlight (onResult c r f s) = inFlight s"
  "logged (onResult c r f s) = (case f of None \<Rightarrow> logged s @ [r] | Some e \<Rightarrow> logged s)"
  "schedulingErrors (onResult c r f s) =
     (case f of None \<Rightarrow> schedulingErrors s | Some e \<Rightarrow> schedulingErrors s @ [e])"
  "testsCompleted (onResult c r f s) = testsCompleted s + 1"
  "intervalArmed (onResult c r f s) = (intervalArmed s \<and> testsCompleted s + 1 < c)"
  by (simp_all add: onResult_def split: option.splits)

lemma onSettle_fields [simp]:
  "exited (onSettle c cb out f s) = exited s"
  "inFlight (onSettle c cb out f s) = inFlight s"
  "testsCompleted (onSettle c cb out f s) = testsCompleted s + 1"
  "intervalArmed (onSettle c cb out f s) = (intervalArmed s \<and> testsCompleted s + 1 < c)"
  "tester (onSettle c cb out f s) =
     (case viaProxy cb of None \<Rightarrow> tester s | Some cfg \<Rightarrow> advance (tester s))"
  by (auto simp: onSettle_def split: option.splits sum.splits)


lemma onTick_fields [simp]:
  "exited (onTick up c start ts s) = exited s"
  "tester (onTick up c start ts s) = tester s"
  "logged (onTick up c start ts s) = logged s"
  by (auto simp: onTick_def split: option.splits)

subsection \<open>Runs without overlap\<close>

lemma step_inFlight_le:
  "length (inFlight s) \<le> 1 \<Longrightarrow>
   (if isTick e \<and> intervalArmed s \<and> \<not> exited s then inFlight s = [] else True) \<Longrightarrow>
   length (inFlight (step up c s e)) \<le> 1"
  by (cases e) (auto simp: onTick_def split: option.splits)

lemma run_inFlight_le:
  "settlesBeforeNextTick up c s evs \<Longrightarrow> length (inFlight s) \<le> 1 \<Longrightarrow>
   length (inFlight (run up c s evs)) \<le> 1"
proof (induction evs arbitrary: s)
  case Nil
  then show ?case by simp
next
  case (Cons e evs)
  from Cons.prems have "length (inFlight (step up c s e)) \<le> 1"
    by (intro step_inFlight_le) simp_all
  with Cons show ?case by simp
qed

lemma settlesBeforeNextTick_take:
  "settlesBeforeNextTick up c s evs \<Longrightarrow> settlesBeforeNextTick up c s (take n evs)"
proof (induction evs arbitrary: s n)
  case Nil
  then show ?case by simp
next
  case (Cons e evs)
  then show ?case by (cases n) simp_all
qed





subsection \<open>Rotation\<close>

lemma list_all_remove_nth:
  "list_all P xs \<Longrightarrow> list_all P (take i xs)"
  "list_all P xs \<Longrightarrow> list_all P (drop j xs)"
  by (auto simp: list_all_iff dest: in_set_takeD in_set_dropD)

lemma rotation_elementAt:
  "ps \<noteq> [] \<Longrightarrow> elementAt ps (n mod int (length ps)) = Some (ps ! nat (n mod int (length ps)))"
  by (simp add: elementAt_def)

lemma advance_cursor:
  assumes "ps \<noteq> []" "proxies t = ps" "currentProxyIndex t = n mod int (length ps)"
  shows "currentProxyIndex (advance t) = (n + 1) mod int (length ps)" "proxies (advance t) = ps"
proof -
  have "jsRem (n mod int (length ps) + 1) (int (length ps)) = (n mod int (length ps) + 1) mod int (length ps)"
    using assms(1) by (intro jsRem_nonneg) simp_all
  then show "currentProxyIndex (advance t) = (n + 1) mod int (length ps)"
    using assms by (simp add: advance_def mod_add_left_eq)
  show "proxies (advance t) = ps"
    using assms by (simp add: advance_def)
qed

lemma onTick_rotation:
  assumes "ps \<noteq> []" "rotationInv ps s"
  shows "onTick True c start ts s =
         s\<lparr>inFlight := inFlight s @
             [\<lparr>viaProxy = Some (ps ! nat (testsCompleted s mod int (length ps))),
               startInstant = start, startDate = ts\<rparr>]\<rparr>"
  using assms by (simp add: onTick_def rotationInv_def rotation_elementAt)

lemma step_rotation:
  assumes "ps \<noteq> []" "rotationInv ps s"
  shows "rotationInv ps (step True c s e)"
proof (cases e)
  case (Tick start ts)
  show ?thesis
  proof (cases "exited s \<or> \<not> intervalArmed s")
    case True
    with Tick assms show ?thesis by simp
  next
    case False
    with Tick have "step True c s e = onTick True c start ts s" by simp
    with assms show ?thesis
      by (simp add: onTick_rotation) (simp add: rotationInv_def)
  qed
next
  case (Settle i out f)
  show ?thesis
  proof (cases "exited s \<or> i \<ge> length (inFlight s)")
    case True
    with Settle assms show ?thesis by simp
  next
    case False
    let ?s = "s\<lparr>inFlight := take i (inFlight s) @ drop (Suc i) (inFlight s)\<rparr>"
    from False have "i < length (inFlight s)" by simp
    with assms(2) have "viaProxy (inFlight s ! i) \<noteq> None"
      by (simp add: rotationInv_def list_all_length)
    then obtain cfg where cfg: "viaProxy (inFlight s ! i) = Some cfg" by auto
    from False Settle have st: "step True c s e = onSettle c (inFlight s ! i) out f ?s" by simp
    from assms(2) have inv: "proxies (tester s) = ps"
      "currentProxyIndex (tester s) = testsCompleted s mod int (length ps)"
      "0 \<le> testsCompleted s" "list_all (\<lambda>c. viaProxy c \<noteq> None) (inFlight s)"
      by (simp_all add: rotationInv_def)
    show ?thesis
      unfolding st rotationInv_def
      using cfg inv advance_cursor [OF assms(1) inv(1) inv(2)]
      by (simp add: list_all_remove_nth)
  qed
next
  case Sigint
  with assms show ?thesis by (simp add: rotationInv_def)
qed

lemma run_rotation:
  assumes "ps \<noteq> []"
  shows "rotationInv ps s \<Longrightarrow> rotationInv ps (run True c s evs)"
  by (induction evs arbitrary: s) (simp_all add: step_rotation [OF assms])

lemma start_rotation: "rotationInv ps (startRun (newTester url ps))"
  by (simp add: rotationInv_def startRun_def newTester_def)

lemma probedVia_exited: "exited s \<Longrightarrow> probedVia up c s evs = []"
  by (induction evs) (simp_all add: step_exited)

lemma testWithProxy_label:
  "testWithProxy (Some cfg) start ts out = Inr r \<Longrightarrow> proxy r = proxyString cfg"
  by (cases out) auto

lemma onSettle_used:
  assumes ps: "ps \<noteq> []" and inv: "usedInv ps s" and rot: "rotationInv ps s"
    and one: "inFlight s = [cb]"
  shows "usedInv ps (onSettle c cb out f (s\<lparr>inFlight := []\<rparr>))"
proof -
  let ?s = "s\<lparr>inFlight := []\<rparr>"
  let ?cfg = "ps ! nat (testsCompleted s mod int (length ps))"
  from inv one have via: "viaProxy cb = Some ?cfg" by (simp add: usedInv_def)
  obtain r where r: "testWithProxy (Some ?cfg) (startInstant cb) (startDate cb) out = Inr r"
    by (cases "testWithProxy (Some ?cfg) (startInstant cb) (startDate cb) out :: 'a LatencyResult promise")
      simp_all
  then have label: "proxy r = proxyString ?cfg" by (rule testWithProxy_label)
  have st: "onSettle c cb out f ?s = onResult c r f (?s\<lparr>tester := advance (tester ?s)\<rparr>)"
    by (simp add: onSettle_def via r)
  from rot have tc: "0 \<le> testsCompleted s" by (simp add: rotationInv_def)
  show ?thesis
  proof (cases f)
    case (Some e)
    then show ?thesis unfolding st by (simp add: usedInv_def)
  next
    case None
    show ?thesis
    proof (cases "schedulingErrors s = []")
      case False
      with None show ?thesis unfolding st by (simp add: usedInv_def)
    next
      case True
      with inv have len: "int (length (logged s)) = testsCompleted s"
        and labels: "map proxy (logged s) =
          map (\<lambda>k. proxyString (ps ! (k mod length ps))) [0..<length (logged s)]"
        by (simp_all add: usedInv_def)
      from len have "testsCompleted s mod int (length ps) = int (length (logged s) mod length ps)"
        by (simp add: zmod_int)
      then have "nat (testsCompleted s mod int (length ps)) = length (logged s) mod length ps"
        by simp
      with label have "proxy r = proxyString (ps ! (length (logged s) mod length ps))" by simp
      with None True len labels show ?thesis
        unfolding st by (simp add: usedInv_def)
    qed
  qed
qed

lemma step_used:
  assumes ps: "ps \<noteq> []" and inv: "usedInv ps s" and rot: "rotationInv ps s"
    and le: "length (inFlight s) \<le> 1"
    and guard: "if isTick e \<and> intervalArmed s \<and> \<not> exited s then inFlight s = [] else True"
  shows "usedInv ps (step True c s e)"
proof (cases e)
  case (Tick start ts)
  show ?thesis
  proof (cases "exited s \<or> \<not> intervalArmed s")
    case True
    with Tick inv show ?thesis by simp
  next
    case False
    with guard Tick have empty: "inFlight s = []" by simp
    from False Tick have "step True c s e = onTick True c start ts s" by simp
    with inv empty show ?thesis
      by (simp add: onTick_rotation [OF ps rot] usedInv_def)
  qed
next
  case (Settle i out f)
  show ?thesis
  proof (cases "exited s \<or> i \<ge> length (inFlight s)")
    case True
    with Settle inv show ?thesis by simp
  next
    case False
    with le have i: "i = 0" and "length (inFlight s) = 1" by auto
    then obtain cb where one: "inFlight s = [cb]" by (cases "inFlight s") auto
    from False Settle i one have "step True c s e = onSettle c cb out f (s\<lparr>inFlight := []\<rparr>)"
      by simp
    with onSettle_used [OF ps inv rot one] show ?thesis by simp
  qed
next
  case Sigint
  with inv show ?thesis by (simp add: usedInv_def)
qed

lemma run_used:
  assumes ps: "ps \<noteq> []"
  shows "settlesBeforeNextTick True c s evs \<Longrightarrow> usedInv ps s \<Longrightarrow> rotationInv ps s \<Longrightarrow>
     length (inFlight s) \<le> 1 \<Longrightarrow> usedInv ps (run True c s evs)"
proof (induction evs arbitrary: s)
  case Nil
  then show ?case by simp
next
  case (Cons e evs)
  from Cons.prems have seq': "settlesBeforeNextTick True c (step True c s e) evs"
    and guard: "if isTick e \<and> intervalArmed s \<and> \<not> exited s then inFlight s = [] else True"
    by simp_all
  have "usedInv ps (step True c s e)"
    using ps Cons.prems(2,3,4) guard by (rule step_used)
  moreover have "rotationInv ps (step True c s e)"
    using Cons.prems(3) by (rule step_rotation [OF ps])
  moreover have "length (inFlight (step True c s e)) \<le> 1"
    using Cons.prems(4) guard by (rule step_inFlight_le)
  ultimately show ?case using Cons.IH [OF seq'] by simp
qed

lemma start_used: "usedInv ps (startRun (newTester url ps))"
  by (simp add: usedInv_def startRun_def)

lemma probedVia_rotate:
  assumes ps: "ps \<noteq> []"
  shows "settlesBeforeNextTick True c s evs \<Longrightarrow> rotationInv ps s \<Longrightarrow> length (inFlight s) \<le> 1 \<Longrightarrow>
     k < length (probedVia True c s evs) \<Longrightarrow>
     probedVia True c s evs ! k =
       Some (ps ! nat ((testsCompleted s + int (length (inFlight s)) + int k) mod int (length ps)))"
proof (induction evs arbitrary: s k)
  case Nil
  then show ?case by simp
next
  case (Cons e evs)
  let ?s' = "step True c s e"
  from Cons.prems have seq': "settlesBeforeNextTick True c ?s' evs"
    and guard: "if isTick e \<and> intervalArmed s \<and> \<not> exited s then inFlight s = [] else True"
    by simp_all
  have inv': "rotationInv ps ?s'" using Cons.prems(2) by (rule step_rotation [OF ps])
  have le': "length (inFlight ?s') \<le> 1" using Cons.prems(3) guard by (rule step_inFlight_le)
  note IH = Cons.IH [OF seq' inv' le']
  show ?case
  proof (cases e)
    case (Tick start ts)
    show ?thesis
    proof (cases "intervalArmed s \<and> \<not> exited s")
      case True
      with guard Tick have empty: "inFlight s = []" by simp
      from True Tick have st: "?s' = onTick True c start ts s" by auto
      have tc': "testsCompleted ?s' = testsCompleted s"
        and fl': "inFlight ?s' =
          [\<lparr>viaProxy = Some (ps ! nat (testsCompleted s mod int (length ps))),
            startInstant = start, startDate = ts\<rparr>]"
        unfolding st onTick_rotation [OF ps Cons.prems(2)] using empty by simp_all
      have head: "probedVia True c s (e # evs) =
          Some (ps ! nat (testsCompleted s mod int (length ps))) # probedVia True c ?s' evs"
        using Tick empty fl' by (simp del: step.simps)
      show ?thesis
      proof (cases k)
        case 0
        with head empty show ?thesis by (simp del: step.simps probedVia.simps)
      next
        case (Suc k')
        with Cons.prems(4) head have "k' < length (probedVia True c ?s' evs)"
          by (simp del: step.simps probedVia.simps)
        from IH [OF this] Suc head empty tc' fl' show ?thesis
          by (simp add: add.commute add.left_commute del: step.simps probedVia.simps)
      qed
    next
      case False
      with Tick have st: "?s' = s" by auto
      have tail: "probedVia True c s (e # evs) = probedVia True c ?s' evs"
        using Tick st by (simp del: step.simps)
      with Cons.prems(4) have "k < length (probedVia True c ?s' evs)" by simp
      from IH [OF this] tail st show ?thesis by simp
    qed
  next
    case (Settle i out f)
    have tail: "probedVia True c s (e # evs) = probedVia True c ?s' evs"
      using Settle by (simp del: step.simps)
    with Cons.prems(4) have k: "k < length (probedVia True c ?s' evs)" by simp
    show ?thesis
    proof (cases "exited s \<or> i \<ge> length (inFlight s)")
      case True
      with Settle have st: "?s' = s" by simp
      from IH [OF k] tail st show ?thesis by simp
    next
      case False
      with Cons.prems(3) have one: "length (inFlight s) = 1" and i: "i = 0" by auto
      from False Settle one i have tc': "testsCompleted ?s' = testsCompleted s + 1"
        and len': "inFlight ?s' = []" by simp_all
      from IH [OF k] tail tc' len' one show ?thesis
        by (simp del: step.simps probedVia.simps)
    qed
  next
    case Sigint
    have tail: "probedVia True c s (e # evs) = probedVia True c ?s' evs"
      using Sigint by (simp del: step.simps)
    show ?thesis
    proof (cases "exited s")
      case True
      then have "probedVia True c s (e # evs) = []" by (rule probedVia_exited)
      with Cons.prems(4) show ?thesis by (simp del: probedVia.simps)
    next
      case False
      with Sigint have "exited ?s'" by simp
      then have "probedVia True c ?s' evs = []" by (rule probedVia_exited)
      with tail Cons.prems(4) show ?thesis by (simp del: probedVia.simps)
    qed
  qed
qed


subsection \<open>The direct path\<close>

lemma step_direct_mode:
  "proxies (tester s) = [] \<Longrightarrow> step True c s e = step False c s e"
  by (cases e) (simp_all add: onTick_def)

lemma onSettle_direct:
  assumes "viaProxy cb = None" "list_all (\<lambda>r. proxy r = ''direct'') (logged s)"
  shows "tester (onSettle c cb out f s) = tester s"
    and "list_all (\<lambda>r. proxy r = ''direct'') (logged (onSettle c cb out f s))"
    and "onSettle c cb out f (s\<lparr>tester := t'\<rparr>) = (onSettle c cb out f s)\<lparr>tester := t'\<rparr>"
    and "onSettle c cb out f (s\<lparr>tester := t', inFlight := fl\<rparr>) =
         (onSettle c cb out f (s\<lparr>inFlight := fl\<rparr>))\<lparr>tester := t'\<rparr>"
  using assms
  by (cases out; cases f;
      simp add: onSettle_def onResult_def onSchedulingError_def countOne_def Let_def)+

lemma step_direct:
  assumes "directInv s"
  shows "directInv (step False c s e)"
    and "tester (step False c s e) = tester s"
    and "step False c (s\<lparr>tester := t'\<rparr>) e = (step False c s e)\<lparr>tester := t'\<rparr>"
proof -
  have "directInv (step False c s e) \<and> tester (step False c s e) = tester s \<and>
        step False c (s\<lparr>tester := t'\<rparr>) e = (step False c s e)\<lparr>tester := t'\<rparr>"
  proof (cases e)
    case (Tick start ts)
    with assms show ?thesis by (simp add: onTick_def directInv_def)
  next
    case (Settle i out f)
    show ?thesis
    proof (cases "exited s \<or> i \<ge> length (inFlight s)")
      case True
      with Settle assms show ?thesis by auto
    next
      case False
      let ?s = "s\<lparr>inFlight := take i (inFlight s) @ drop (Suc i) (inFlight s)\<rparr>"
      from False assms have cb: "viaProxy (inFlight s ! i) = None"
        by (simp add: directInv_def list_all_length)
      from assms have lg: "list_all (\<lambda>r. proxy r = ''direct'') (logged ?s)"
        by (simp add: directInv_def)
      from assms have fl: "list_all (\<lambda>c. viaProxy c = None) (inFlight ?s)"
        by (simp add: directInv_def list_all_remove_nth)
      from False Settle have st: "step False c s e = onSettle c (inFlight s ! i) out f ?s" by simp
      from False Settle have st': "step False c (s\<lparr>tester := t'\<rparr>) e =
          onSettle c (inFlight s ! i) out f
            (s\<lparr>tester := t', inFlight := take i (inFlight s) @ drop (Suc i) (inFlight s)\<rparr>)"
        by simp
      show ?thesis
        unfolding st st' directInv_def
        using onSettle_direct [OF cb lg, of c out f] fl by simp
    qed
  next
    case Sigint
    with assms show ?thesis by (simp add: directInv_def)
  qed
  then show "directInv (step False c s e)"
    and "tester (step False c s e) = tester s"
    and "step False c (s\<lparr>tester := t'\<rparr>) e = (step False c s e)\<lparr>tester := t'\<rparr>"
    by simp_all
qed

lemma run_direct:
  "directInv s \<Longrightarrow>
   directInv (run False c s evs) \<and> tester (run False c s evs) = tester s \<and>
   run False c (s\<lparr>tester := t'\<rparr>) evs = (run False c s evs)\<lparr>tester := t'\<rparr>"
proof (induction evs arbitrary: s)
  case Nil
  then show ?case by simp
next
  case (Cons e evs)
  from Cons.IH [OF step_direct(1) [OF Cons.prems]] step_direct(2,3) [OF Cons.prems]
  show ?case by simp
qed

lemma run_empty_pool:
  "directInv s \<Longrightarrow> proxies (tester s) = [] \<Longrightarrow> run True c s evs = run False c s evs"
proof (induction evs arbitrary: s)
  case Nil
  then show ?case by simp
next
  case (Cons e evs)
  have "directInv (step False c s e)" "proxies (tester (step False c s e)) = []"
    using step_direct(1,2) [OF Cons.prems(1)] Cons.prems(2) by simp_all
  from Cons.IH [OF this] Cons.prems(2) show ?case
    by (simp add: step_direct_mode)
qed

lemma start_direct: "directInv (startRun t)"
  by (simp add: directInv_def startRun_def)

section \<open>The probes: results, errors, latency\<close>

lemmas evalRun = runContinuousTesting_def startRun_def newTester_def onTick_def onSettle_def
  onResult_def onSchedulingError_def countOne_def elementAt_def advance_def jsRem_def Let_def
  completed_def settledRun_def overlappingRun_def

text \<open>
  Claim C4. Every result a probe produces has exactly one of the success payload and the
  error description, and the success flag says which: a successful result has the payload
  and no error, a failed result has the error and no payload.
\<close>

theorem probe_result_exactly_one:
  "testDirect start ts out = Inr r \<or> testWithProxy cfg start ts out = Inr r \<Longrightarrow>
   (success r \<longrightarrow> responseData r \<noteq> None \<and> error r = None) \<and>
   (\<not> success r \<longrightarrow> error r \<noteq> None \<and> responseData r = None)"
  by (cases out; cases cfg) auto

theorem probe_result_exactly_one_witness:
  "testDirect 0 1 (Rejected (ErrorObject ''ECONNREFUSED'') 2500000 :: string transport) =
     Inr \<lparr>timestamp = 1, proxy = ''direct'', latency = Finite (5 / 2), success = False,
          error = Some ''ECONNREFUSED'', responseData = None\<rparr> \<and>
   error \<lparr>timestamp = 1, proxy = ''direct'', latency = Finite (5 / 2), success = False,
          error = Some ''ECONNREFUSED'', responseData = (None :: string option)\<rparr> \<noteq> None \<and>
   responseData \<lparr>timestamp = 1, proxy = ''direct'', latency = Finite (5 / 2), success = False,
          error = Some ''ECONNREFUSED'', responseData = (None :: string option)\<rparr> = None \<and>
   testWithProxy (Some proxyA) 0 1 (Responded 2500000 ''{}'') =
     Inr \<lparr>timestamp = 1, proxy = ''10.0.0.1:8080'', latency = Finite (5 / 2), success = True,
          error = None, responseData = Some ''{}''\<rparr> \<and>
   responseData \<lparr>timestamp = 1, proxy = ''10.0.0.1:8080'', latency = Finite (5 / 2), success = True,
          error = None, responseData = Some ''{}''\<rparr> \<noteq> None \<and>
   error \<lparr>timestamp = 1, proxy = ''10.0.0.1:8080'', latency = Finite (5 / 2), success = True,
          error = None, responseData = Some ''{}''\<rparr> = None"
  using probe_result_exactly_one [of 0 1
      "Rejected (ErrorObject ''ECONNREFUSED'') 2500000 :: string transport"
      "\<lparr>timestamp = 1, proxy = ''direct'', latency = Finite (5 / 2), success = False,
          error = Some ''ECONNREFUSED'', responseData = None\<rparr>" None]
    probe_result_exactly_one [of 0 1 "Responded 2500000 ''{}''"
      "\<lparr>timestamp = 1, proxy = ''10.0.0.1:8080'', latency = Finite (5 / 2), success = True,
          error = None, responseData = Some ''{}''\<rparr>" "Some proxyA"]
  by (simp add: evalNumber proxyString_def proxyA_def decimal.simps digitChar_def)



text \<open>
  Claim C8. Every probe, direct or proxied, successful or failed, produces a result whose
  latency is the end instant minus the start instant converted to milliseconds as the code
  converts it (\<open>Number(end - start) / 1_000_000\<close> in double precision). With a clock that
  does not run backwards the latency is not negative; and for an elapsed time below
  \<open>2 ^ 53\<close> nanoseconds it is a finite number within a relative error of \<open>2 ^ -53\<close>
  of the exact quotient.
\<close>

theorem latency_recorded:
  "(\<exists>r. testDirect start ts out = Inr r \<and> latency r = latencyMs start (endInstant out)) \<and>
   (\<exists>r. testWithProxy (Some cfg) start ts out = Inr r \<and>
        latency r = latencyMs start (endInstant out)) \<and>
   (start \<le> endInstant out \<longrightarrow> nonNegative (latencyMs start (endInstant out))) \<and>
   (0 \<le> endInstant out - start \<and> endInstant out - start < 2 ^ 53 \<longrightarrow>
      (\<exists>v. latencyMs start (endInstant out) = Finite v \<and>
           \<bar>v - real_of_int (endInstant out - start) / 1000000\<bar>
             \<le> real_of_int (endInstant out - start) / 1000000 / 2 ^ 53))"
proof (intro conjI impI)
  show "\<exists>r. testDirect start ts out = Inr r \<and> latency r = latencyMs start (endInstant out)"
    by (cases out) simp_all
  show "\<exists>r. testWithProxy (Some cfg) start ts out = Inr r \<and>
      latency r = latencyMs start (endInstant out)"
    by (cases out) simp_all
next
  assume "start \<le> endInstant out"
  then show "nonNegative (latencyMs start (endInstant out))"
    by (rule latencyMs_nonNegative)
next
  assume "0 \<le> endInstant out - start \<and> endInstant out - start < 2 ^ 53"
  then show "\<exists>v. latencyMs start (endInstant out) = Finite v \<and>
      \<bar>v - real_of_int (endInstant out - start) / 1000000\<bar>
        \<le> real_of_int (endInstant out - start) / 1000000 / 2 ^ 53"
    by (intro latencyMs_accurate) simp_all
qed

theorem latency_recorded_witness:
  "testDirect 1000000 7 (BodyRejected 3000000 (ErrorObject ''Unexpected token'') 3500000
       :: string transport) =
     Inr \<lparr>timestamp = 7, proxy = ''direct'', latency = Finite (5 / 2), success = False,
          error = Some ''Unexpected token'', responseData = None\<rparr> \<and>
   testWithProxy (Some proxyB) 1000000 7 (BodyRejected 3000000 (ErrorObject ''Unexpected token'')
       3500000 :: string transport) =
     Inr \<lparr>timestamp = 7, proxy = ''10.0.0.2:3128'', latency = Finite (5 / 2), success = False,
          error = Some ''Unexpected token'', responseData = None\<rparr> \<and>
   testDirect 0 7 (Responded 1 ''{}'') =
     Inr \<lparr>timestamp = 7, proxy = ''direct'', latency = Finite (4722366482869645 / 2 ^ 72),
          success = True, error = None, responseData = Some ''{}''\<rparr> \<and>
   testWithProxy (Some proxyB) 0 7 (Responded 1 ''{}'') =
     Inr \<lparr>timestamp = 7, proxy = ''10.0.0.2:3128'',
          latency = Finite (4722366482869645 / 2 ^ 72),
          success = True, error = None, responseData = Some ''{}''\<rparr> \<and>
   nonNegative (Finite (5 / 2)) \<and>
   nonNegative (Finite (4722366482869645 / 2 ^ 72)) \<and>
   \<bar>4722366482869645 / 2 ^ 72 - real_of_int (1 - 0) / 1000000\<bar>
     \<le> real_of_int (1 - 0) / 1000000 / 2 ^ 53"
proof -
  have failed: "latencyMs 1000000 3500000 = Finite (5 / 2)"
    by (simp add: evalNumber)
  have rounded: "latencyMs 0 1 = Finite (4722366482869645 / 2 ^ 72)"
    by (simp add: evalNumber)
  have clock: "(1000000 :: int) \<le> 3500000 \<and> (0 :: int) \<le> 1 - 0 \<and> (1 :: int) - 0 < 2 ^ 53"
    by simp
  from failed rounded clock
    latency_recorded [of 1000000 7
      "BodyRejected 3000000 (ErrorObject ''Unexpected token'') 3500000 :: string transport" proxyB]
    latency_recorded [of 0 7 "Responded 1 ''{}''" proxyB]
  show ?thesis
    by (auto simp: proxyString_def proxyB_def decimal.simps digitChar_def)
qed

section \<open>The one-shot entry point\<close>

text \<open>
  Claim C7. \<open>singleTest\<close> leaves the tester, and with it the rotation cursor, as it
  found it, for every flag, index, pool and cursor. Without an index it reads the proxy
  at the cursor; with an index that is not negative it reads the proxy at the index
  modulo the pool length.
\<close>

theorem singleTest_frame:
  "snd (singleTest t useProxy proxyIndex start ts out) = t \<and>
   currentProxyIndex (snd (singleTest t useProxy proxyIndex start ts out)) = currentProxyIndex t \<and>
   (useProxy \<and> proxies t \<noteq> [] \<and> proxyIndex = None \<longrightarrow>
      fst (singleTest t useProxy proxyIndex start ts out) =
        testWithProxy (elementAt (proxies t) (currentProxyIndex t)) start ts out) \<and>
   (useProxy \<and> proxies t \<noteq> [] \<and> proxyIndex = Some i \<and> 0 \<le> i \<longrightarrow>
      fst (singleTest t useProxy proxyIndex start ts out) =
        testWithProxy (Some (proxies t ! nat (i mod int (length (proxies t))))) start ts out)"
  by (auto simp: singleTest_def Let_def jsRem_nonneg elementAt_def)

theorem singleTest_frame_witness:
  "snd (singleTest (newTester target [proxyA, proxyB]) True (Some 3) 0 0
          (Responded 250000000 ''{}'')) = newTester target [proxyA, proxyB] \<and>
   fst (singleTest (newTester target [proxyA, proxyB]) True (Some 3) 0 0
          (Responded 250000000 ''{}'')) = testWithProxy (Some proxyB) 0 0 (Responded 250000000 ''{}'') \<and>
   snd (singleTest \<lparr>targetUrl = target, proxies = [proxyA, proxyB], currentProxyIndex = 1\<rparr>
          True None 0 0 (Responded 250000000 ''{}'')) =
     \<lparr>targetUrl = target, proxies = [proxyA, proxyB], currentProxyIndex = 1\<rparr> \<and>
   fst (singleTest \<lparr>targetUrl = target, proxies = [proxyA, proxyB], currentProxyIndex = 1\<rparr>
          True None 0 0 (Responded 250000000 ''{}'')) =
     testWithProxy (Some proxyB) 0 0 (Responded 250000000 ''{}'')"
  using singleTest_frame [of "newTester target [proxyA, proxyB]" True "Some 3" 0 0
      "Responded 250000000 ''{}''" 3]
    singleTest_frame [of "\<lparr>targetUrl = target, proxies = [proxyA, proxyB], currentProxyIndex = 1\<rparr>"
      True None 0 0 "Responded 250000000 ''{}''" 0]
  by (simp add: newTester_def elementAt_def)

text \<open>
  Claim C10, at a negative index. With two proxies and \<open>proxyIndex = -1\<close> the remainder
  \<open>-1 % 2\<close> is \<open>-1\<close>, the array has no element there, and \<open>testWithProxy\<close> rejects with
  the \<open>TypeError\<close> instead of returning a result.
\<close>

theorem singleTest_negative_index_rejects:
  "jsRem (- 1) 2 = - 1 \<and>
   elementAt [proxyA, proxyB] (- 1) = None \<and>
   fst (singleTest (newTester target [proxyA, proxyB]) True (Some (- 1)) 0 0
          (Responded 250000000 ''{}'')) = Inl undefinedProxyError"
  by (simp add: singleTest_def newTester_def jsRem_def elementAt_def)

section \<open>The schedule\<close>

text \<open>
  The schedule is not guarded against re-entry: with ten probes asked for and two
  proxies, two ticks in a row leave two probes in flight.
\<close>

theorem overlapping_ticks_counterexample:
  "\<not> length (inFlight (runContinuousTesting (newTester target [proxyA, proxyB]) True 10
        [Tick 0 0, Tick 1000000000 1000 :: string event])) \<le> 1"
  by (simp add: evalRun)

text \<open>
  Claim C1, amended. A tick that fires starts a probe whatever is in flight. In a run
  where every probe settles before the next tick fires, at most one probe is in flight at
  every point of the run.
\<close>

theorem at_most_one_in_flight:
  "(\<not> exited s \<and> intervalArmed s \<and>
    (useProxy \<and> proxies (tester s) \<noteq> [] \<longrightarrow>
       elementAt (proxies (tester s)) (currentProxyIndex (tester s)) \<noteq> None) \<longrightarrow>
      length (inFlight (step useProxy count s (Tick start ts))) = Suc (length (inFlight s))) \<and>
   (settlesBeforeNextTick useProxy count (startRun t) evs \<longrightarrow>
      length (inFlight (runContinuousTesting t useProxy count (take n evs))) \<le> 1)"
proof (intro conjI impI)
  assume "\<not> exited s \<and> intervalArmed s \<and>
    (useProxy \<and> proxies (tester s) \<noteq> [] \<longrightarrow>
       elementAt (proxies (tester s)) (currentProxyIndex (tester s)) \<noteq> None)"
  then show "length (inFlight (step useProxy count s (Tick start ts))) = Suc (length (inFlight s))"
    by (auto simp: onTick_def)
next
  assume "settlesBeforeNextTick useProxy count (startRun t) evs"
  then show "length (inFlight (runContinuousTesting t useProxy count (take n evs))) \<le> 1"
    unfolding runContinuousTesting_def
    by (intro run_inFlight_le settlesBeforeNextTick_take) (simp_all add: startRun_def)
qed

theorem at_most_one_in_flight_witness:
  "length (inFlight (step True 2 (startRun (newTester target [proxyA, proxyB]))
      (Tick 0 0 :: string event))) = 1 \<and>
   length (inFlight (step True 2 (step True 2 (startRun (newTester target [proxyA, proxyB]))
      (Tick 0 0 :: string event)) (Tick 1000000000 1000))) = 2 \<and>
   settlesBeforeNextTick True 2 (startRun (newTester target [proxyA, proxyB])) settledRun \<and>
   length (inFlight (runContinuousTesting (newTester target [proxyA, proxyB]) True 2
     (take 3 settledRun))) \<le> 1"
proof -
  let ?s = "step True 2 (startRun (newTester target [proxyA, proxyB])) (Tick 0 0) :: string Run"
  have armed: "\<not> exited ?s \<and> intervalArmed ?s \<and> proxies (tester ?s) \<noteq> [] \<and>
      elementAt (proxies (tester ?s)) (currentProxyIndex (tester ?s)) \<noteq> None"
    by (simp add: evalRun)
  have one: "length (inFlight ?s) = 1"
    by (simp add: evalRun)
  have h: "settlesBeforeNextTick True 2 (startRun (newTester target [proxyA, proxyB])) settledRun"
    by (simp add: evalRun)
  from armed one h
    at_most_one_in_flight [where s = ?s and useProxy = True and count = 2 and start = 1000000000
      and ts = 1000 and t = "newTester target [proxyA, proxyB]" and evs = settledRun and n = 3]
  show ?thesis
    by (simp del: step.simps)
qed




text \<open>
  The rotation does not follow the tick index when probes overlap: with the pool
  \<open>[proxyA, proxyB]\<close>, the second of two ticks in a row (tick 1) reads the cursor
  before the first probe has advanced it, so its probe goes through \<open>proxyA\<close>, not
  \<open>proxyB\<close>, and both results carry the label of \<open>proxyA\<close>.
\<close>

theorem rotation_counterexample:
  "map viaProxy (inFlight (runContinuousTesting (newTester target [proxyA, proxyB]) True 10
        [Tick 0 0, Tick 1000000000 1000 :: string event])) = [Some proxyA, Some proxyA] \<and>
   probedVia True 10 (startRun (newTester target [proxyA, proxyB])) overlappingRun ! 1 =
     Some proxyA \<and>
   map proxy (logged (runContinuousTesting (newTester target [proxyA, proxyB]) True 10
        overlappingRun)) = [''10.0.0.1:8080'', ''10.0.0.1:8080''] \<and>
   [proxyA, proxyB] ! (1 mod 2) = proxyB \<and>
   proxyString proxyB = ''10.0.0.2:3128'' \<and>
   proxyA \<noteq> proxyB"
  by (simp add: evalRun proxyString_def decimal.simps digitChar_def proxyA_def proxyB_def)

text \<open>
  Claim C3, amended. In proxy mode with a pool of length \<open>L > 0\<close>: when a proxied probe
  settles, the cursor becomes \<open>(cursor + 1) % L\<close> whatever the transport delivered and
  whether or not \<open>logResult\<close> throws; in every run on a fresh tester the cursor equals
  the number of settled probes modulo \<open>L\<close>; and in a run where every probe settles before
  the next tick fires, the probe of the tick of index \<open>k\<close> is sent through
  \<open>pool[k mod L]\<close>, and as long as no scheduling error occurred the \<open>k\<close>-th result
  logged carries the label of \<open>pool[k mod L]\<close>.
\<close>

theorem rotation_follows_settled_probes:
  fixes evs :: "'p event list"
  assumes "ps \<noteq> []"
  shows
    "(\<not> exited s \<and> i < length (inFlight s) \<and> viaProxy (inFlight s ! i) \<noteq> None \<and>
      proxies (tester s) \<noteq> [] \<longrightarrow>
        currentProxyIndex (tester (step useProxy count s (Settle i out sinkFault))) =
          jsRem (currentProxyIndex (tester s) + 1) (int (length (proxies (tester s))))) \<and>
     currentProxyIndex (tester (runContinuousTesting (newTester url ps) True count evs)) =
       testsCompleted (runContinuousTesting (newTester url ps) True count evs) mod int (length ps) \<and>
     (settlesBeforeNextTick True count (startRun (newTester url ps)) evs \<longrightarrow>
        (\<forall>k < length (probedVia True count (startRun (newTester url ps)) evs).
           probedVia True count (startRun (newTester url ps)) evs ! k =
             Some (ps ! (k mod length ps))) \<and>
        (schedulingErrors (runContinuousTesting (newTester url ps) True count evs) = [] \<longrightarrow>
           map proxy (logged (runContinuousTesting (newTester url ps) True count evs)) =
             map (\<lambda>k. proxyString (ps ! (k mod length ps)))
               [0..<length (logged (runContinuousTesting (newTester url ps) True count evs))]))"
proof (intro conjI impI allI)
  assume "\<not> exited s \<and> i < length (inFlight s) \<and> viaProxy (inFlight s ! i) \<noteq> None \<and>
      proxies (tester s) \<noteq> []"
  then show "currentProxyIndex (tester (step useProxy count s (Settle i out sinkFault))) =
      jsRem (currentProxyIndex (tester s) + 1) (int (length (proxies (tester s))))"
    by (auto simp: advance_def)
next
  have "rotationInv ps (run True count (startRun (newTester url ps) :: 'p Run) evs)"
    by (rule run_rotation [OF assms start_rotation])
  then show "currentProxyIndex (tester (runContinuousTesting (newTester url ps) True count evs)) =
      testsCompleted (runContinuousTesting (newTester url ps) True count evs) mod int (length ps)"
    by (simp add: rotationInv_def runContinuousTesting_def)
next
  fix k
  let ?s = "startRun (newTester url ps) :: 'p Run"
  assume seq: "settlesBeforeNextTick True count ?s evs"
    and k: "k < length (probedVia True count ?s evs)"
  have "length (inFlight ?s) \<le> 1" by (simp add: startRun_def)
  from probedVia_rotate [OF assms seq start_rotation this k]
  show "probedVia True count ?s evs ! k = Some (ps ! (k mod length ps))"
    by (simp add: startRun_def nat_mod_distrib flip: zmod_int)
next
  let ?s = "startRun (newTester url ps) :: 'p Run"
  assume seq: "settlesBeforeNextTick True count ?s evs"
    and none: "schedulingErrors (runContinuousTesting (newTester url ps) True count evs) = []"
  have "length (inFlight ?s) \<le> 1" by (simp add: startRun_def)
  with seq have "usedInv ps (run True count ?s evs)"
    by (intro run_used [OF assms] start_used start_rotation)
  with none show "map proxy (logged (runContinuousTesting (newTester url ps) True count evs)) =
      map (\<lambda>k. proxyString (ps ! (k mod length ps)))
        [0..<length (logged (runContinuousTesting (newTester url ps) True count evs))]"
    by (simp add: usedInv_def runContinuousTesting_def)
qed

theorem rotation_follows_settled_probes_witness:
  "[proxyA, proxyB] \<noteq> [] \<and>
   currentProxyIndex (tester (step True 3
       (step True 3 (startRun (newTester target [proxyA, proxyB])) (Tick 0 0))
       (Settle 0 (Rejected (ErrorObject ''ECONNRESET'') 300000000 :: string transport) None))) = 1 \<and>
   currentProxyIndex (tester (runContinuousTesting (newTester target [proxyA, proxyB]) True 3
       settledRun)) = 0 \<and>
   testsCompleted (runContinuousTesting (newTester target [proxyA, proxyB]) True 3 settledRun) = 2 \<and>
   settlesBeforeNextTick True 3 (startRun (newTester target [proxyA, proxyB])) settledRun \<and>
   length (probedVia True 3 (startRun (newTester target [proxyA, proxyB])) settledRun) = 2 \<and>
   probedVia True 3 (startRun (newTester target [proxyA, proxyB])) settledRun ! 1 = Some proxyB \<and>
   schedulingErrors (runContinuousTesting (newTester target [proxyA, proxyB]) True 3 settledRun) = [] \<and>
   map proxy (logged (runContinuousTesting (newTester target [proxyA, proxyB]) True 3 settledRun)) =
     [proxyString proxyA, proxyString proxyB]"
proof -
  let ?s = "step True 3 (startRun (newTester target [proxyA, proxyB])) (Tick 0 0) :: string Run"
  have ne: "[proxyA, proxyB] \<noteq> []" by simp
  have flying: "\<not> exited ?s \<and> 0 < length (inFlight ?s) \<and> viaProxy (inFlight ?s ! 0) \<noteq> None \<and>
      proxies (tester ?s) \<noteq> []"
    by (simp add: evalRun)
  have cursor: "jsRem (currentProxyIndex (tester ?s) + 1) (int (length (proxies (tester ?s)))) = 1"
    by (simp add: evalRun)
  have seq: "settlesBeforeNextTick True 3 (startRun (newTester target [proxyA, proxyB])) settledRun"
    by (simp add: evalRun)
  have tc: "testsCompleted (runContinuousTesting (newTester target [proxyA, proxyB]) True 3
      settledRun) = 2"
    by (simp add: evalRun)
  have len: "length (probedVia True 3 (startRun (newTester target [proxyA, proxyB])) settledRun) = 2"
    by (simp add: evalRun)
  have none: "schedulingErrors
      (runContinuousTesting (newTester target [proxyA, proxyB]) True 3 settledRun) = []"
    by (simp add: evalRun)
  have two: "length (logged
      (runContinuousTesting (newTester target [proxyA, proxyB]) True 3 settledRun)) = 2"
    by (simp add: evalRun)
  have upt: "[0..<2] = [0, Suc 0]" by (simp add: upt_rec)
  from ne flying cursor seq tc len none two
    rotation_follows_settled_probes [OF ne, where url = target and count = 3 and evs = settledRun
      and s = ?s and i = 0 and useProxy = True
      and out = "Rejected (ErrorObject ''ECONNRESET'') 300000000" and sinkFault = None]
  show ?thesis
    by (simp add: upt del: step.simps)
qed



text \<open>
  Claim C6. With an empty pool, a run with proxy mode requested is the same run, state
  for state, as with proxy mode disabled; a run with proxy mode disabled on any pool
  differs from it in nothing but the pool the tester holds; every result logged carries
  the label \<open>direct\<close>; and \<open>singleTest\<close> with an empty pool gives the same result under
  both flags, labelled \<open>direct\<close>.
\<close>

theorem empty_pool_degrades_to_direct:
  fixes evs :: "'p event list" and out :: "'p transport"
  shows
  "runContinuousTesting (t\<lparr>proxies := []\<rparr>) True count evs =
     runContinuousTesting (t\<lparr>proxies := []\<rparr>) False count evs \<and>
   runContinuousTesting t False count evs =
     (runContinuousTesting (t\<lparr>proxies := []\<rparr>) True count evs)\<lparr>tester := t\<rparr> \<and>
   (\<forall>r \<in> set (logged (runContinuousTesting (t\<lparr>proxies := []\<rparr>) True count evs)).
      proxy r = ''direct'') \<and>
   singleTest (t\<lparr>proxies := []\<rparr>) True proxyIndex start ts out =
     singleTest (t\<lparr>proxies := []\<rparr>) False proxyIndex start ts out \<and>
   (\<exists>r. fst (singleTest (t\<lparr>proxies := []\<rparr>) True proxyIndex start ts out) = Inr r \<and>
        proxy r = ''direct'')"
proof -
  let ?t0 = "t\<lparr>proxies := []\<rparr>"
  have eq: "run True count (startRun ?t0) evs = run False count (startRun ?t0) evs"
    by (rule run_empty_pool) (simp_all add: start_direct, simp add: startRun_def)
  have "(startRun t :: 'p Run) = (startRun ?t0)\<lparr>tester := t\<rparr>"
    by (simp add: startRun_def)
  moreover have rd: "directInv (run False count (startRun ?t0) evs) \<and>
      run False count ((startRun ?t0)\<lparr>tester := t\<rparr>) evs =
        (run False count (startRun ?t0) evs)\<lparr>tester := t\<rparr>"
    using run_direct [OF start_direct] by blast
  ultimately have any: "run False count (startRun t) evs =
      (run False count (startRun ?t0) evs)\<lparr>tester := t\<rparr>"
    by simp
  from rd have lab: "\<forall>r \<in> set (logged (run False count (startRun ?t0) evs)). proxy r = ''direct''"
    by (simp add: directInv_def list_all_iff)
  have single: "singleTest ?t0 True proxyIndex start ts out = singleTest ?t0 False proxyIndex start ts out"
    by (simp add: singleTest_def)
  have "\<exists>r. fst (singleTest ?t0 True proxyIndex start ts out) = Inr r \<and> proxy r = ''direct''"
    by (cases out) (simp_all add: singleTest_def)
  with eq any lab single show ?thesis
    by (simp add: runContinuousTesting_def)
qed

theorem empty_pool_degrades_to_direct_witness:
  "runContinuousTesting (newTester target []) True 2 settledRun =
     runContinuousTesting (newTester target []) False 2 settledRun \<and>
   runContinuousTesting (newTester target [proxyA]) False 2 settledRun =
     (runContinuousTesting (newTester target []) True 2 settledRun)
       \<lparr>tester := newTester target [proxyA]\<rparr> \<and>
   map proxy (logged (runContinuousTesting (newTester target []) True 2 settledRun)) =
     [''direct'', ''direct''] \<and>
   singleTest (newTester target []) True (Some 5) 0 0 (Responded 250000000 ''{}'') =
     singleTest (newTester target []) False (Some 5) 0 0 (Responded 250000000 ''{}'')"
proof -
  have t0: "(newTester target [proxyA])\<lparr>proxies := []\<rparr> = newTester target []"
    by (simp add: newTester_def)
  have labels: "map proxy (logged (runContinuousTesting (newTester target []) True 2 settledRun)) =
     [''direct'', ''direct'']"
    by (simp add: evalRun)
  from labels
    empty_pool_degrades_to_direct [where t = "newTester target [proxyA]" and count = 2
      and evs = settledRun and proxyIndex = "Some 5" and start = 0 and ts = 0
      and out = "Responded 250000000 ''{}''"]
  show ?thesis
    unfolding t0 by blast
qed

end
